theory Spec2Isabelle
  imports Main "HOL-Library.Word"
begin

section \<open>The command table\<close>

type_synonym byte = "8 word"

text \<open>
  \<^verbatim>\<open>var Command map[string]byte\<close> (openbci.go, lines 29-36): a Go map literal with
  six keys, kept here in the order of the source. Nothing in the package assigns to it.
\<close>

definition Command_table :: "(string \<times> byte) list" where
  "Command_table =
     [(''stop'', 0x73),
      (''start'', 0x62),
      (''reset'', 0x76),
      (''footer'', 0xc0),
      (''header'', 0xa0),
      (''init'', 0x24)]"

definition Command :: "string \<rightharpoonup> byte" where
  "Command = map_of Command_table"

text \<open>
  The index expression \<^verbatim>\<open>Command["name"]\<close>: a Go map yields the zero value of the
  element type for a key that is absent.
\<close>

definition Command_at :: "string \<Rightarrow> byte" where
  "Command_at name = (case Command name of None \<Rightarrow> 0 | Some b \<Rightarrow> b)"

section \<open>Reset detection\<close>

text \<open>
  \<^verbatim>\<open>isReset\<close> (lines 69-76): a range loop over the buffer that returns true at the
  first element equal to \<^verbatim>\<open>Command["reset"]\<close>, and false when the loop runs out.
\<close>

fun isReset :: "byte list \<Rightarrow> bool" where
  "isReset [] = False"
| "isReset (val # buf) = (if val = Command_at ''reset'' then True else isReset buf)"

section \<open>The device and its transport\<close>

text \<open>
  A Go \<^verbatim>\<open>error\<close> value is either \<^verbatim>\<open>nil\<close> (\<open>None\<close>), \<^verbatim>\<open>io.EOF\<close>, the one error the
  handshake compares against, or some other error, told apart by a number.
\<close>

datatype error = EOF | Failure nat

text \<open>
  \<^verbatim>\<open>type Device struct { r io.Reader; w io.Writer; c io.Closer }\<close> (lines 55-59).
  \<^verbatim>\<open>NewDevice\<close> stores one connection in all three fields, so the three capabilities
  act on one connection state \<open>'s\<close>. A call of \<^verbatim>\<open>Read(buf)\<close> sees the buffer and answers
  with the bytes it stored from index 0 on, the count and the error; \<^verbatim>\<open>Write(buf)\<close> answers
  with the count and the error. Go's \<^verbatim>\<open>int\<close> is \<open>int\<close> here: every count the driver adds
  up is one the transport returned, and at most three of them are added.
\<close>

record 's Device =
  dev_r :: "'s \<Rightarrow> byte list \<Rightarrow> (byte list \<times> int \<times> error option) \<times> 's"
  dev_w :: "'s \<Rightarrow> byte list \<Rightarrow> (int \<times> error option) \<times> 's"
  dev_c :: "'s \<Rightarrow> error option \<times> 's"

text \<open>
  What the caller's slice holds after the reader stored \<open>data\<close> at its front: a callee
  cannot change the length of the caller's slice.
\<close>

definition stored :: "byte list \<Rightarrow> byte list \<Rightarrow> byte list" where
  "stored buf data = take (length buf) data @ drop (length data) buf"

text \<open>\<^verbatim>\<open>Device.Read\<close> (lines 61-67): the count is replaced by 0 when the transport fails.\<close>

definition Device_Read ::
  "'s Device \<Rightarrow> 's \<Rightarrow> byte list \<Rightarrow> (byte list \<times> int \<times> error option) \<times> 's" where
  "Device_Read d s buf =
     (case dev_r d s buf of
        ((data, n, err), s') \<Rightarrow>
          if err \<noteq> None then ((stored buf data, 0, err), s')
          else ((stored buf data, n, None), s'))"

text \<open>\<^verbatim>\<open>Device.Close\<close> (lines 138-144).\<close>

definition Device_Close :: "'s Device \<Rightarrow> 's \<Rightarrow> error option \<times> 's" where
  "Device_Close d s =
     (case dev_c d s of
        (err, s') \<Rightarrow> if err \<noteq> None then (err, s') else (None, s'))"

text \<open>
  \<^verbatim>\<open>Device.Write\<close> (lines 78-93), \<^verbatim>\<open>Device.reset\<close> (lines 95-136) and the \<^verbatim>\<open>for\<close> loop
  of \<^verbatim>\<open>reset\<close> (lines 118-135), which call one another: \<^verbatim>\<open>Write\<close> calls \<^verbatim>\<open>reset\<close> on a
  buffer that holds the reset byte, and \<^verbatim>\<open>reset\<close> and its loop call \<^verbatim>\<open>d.Write\<close> (not
  \<^verbatim>\<open>d.w.Write\<close>) for the stop, reset and start bytes. Neither the recursion nor the loop
  has a bound in the source, so the first argument is fuel: every call and every turn of
  the loop spends one unit, and \<open>None\<close> means the fuel ran out before the call returned.
  The result is the pair \<^verbatim>\<open>(n, err)\<close> and the connection state. The pacing sleeps and the
  log lines are left out.

  The loop carries the locals of \<^verbatim>\<open>reset\<close> that it reads and writes: the count \<open>n\<close>, the
  index \<open>idx\<close>, the window \<open>scrolling\<close> and the one-byte buffer \<open>buf\<close>. The index starts at
  0 and only grows, so \<^verbatim>\<open>idx%3\<close> is \<open>idx mod 3\<close>; that a machine \<^verbatim>\<open>int\<close> would wrap after
  \<open>2^63\<close> reads is not modelled.
\<close>

definition init_array :: "byte list" where
  "init_array = [Command_at ''init'', Command_at ''init'', Command_at ''init'']"

fun Device_Write ::
    "nat \<Rightarrow> 's Device \<Rightarrow> 's \<Rightarrow> byte list \<Rightarrow> ((int \<times> error option) \<times> 's) option"
  and Device_reset ::
    "nat \<Rightarrow> 's Device \<Rightarrow> 's \<Rightarrow> byte list \<Rightarrow> ((int \<times> error option) \<times> 's) option"
  and reset_loop ::
    "nat \<Rightarrow> 's Device \<Rightarrow> 's \<Rightarrow> int \<Rightarrow> int \<Rightarrow> byte list \<Rightarrow> byte list \<Rightarrow>
       ((int \<times> error option) \<times> 's) option"
where
  "Device_Write 0 d s buf = None"
| "Device_Write (Suc fuel) d s buf =
     (if isReset buf then
        (case Device_reset fuel d s buf of
           None \<Rightarrow> None
         | Some ((n, err), s') \<Rightarrow>
             if err \<noteq> None then Some ((0, err), s') else Some ((n, None), s'))
      else
        (case dev_w d s buf of
           ((n, err), s') \<Rightarrow>
             if err \<noteq> None then Some ((0, err), s') else Some ((n, None), s')))"
| "Device_reset 0 d s buf = None"
| "Device_reset (Suc fuel) d s buf =
     (case Device_Write fuel d s [Command_at ''stop''] of
        None \<Rightarrow> None
      | Some ((n0, err), s0) \<Rightarrow>
          if err \<noteq> None then Some ((0, err), s0)
          else
            (case Device_Write fuel d s0 [Command_at ''reset''] of
               None \<Rightarrow> None
             | Some ((n1, err), s1) \<Rightarrow>
                 if err \<noteq> None then Some ((0 + n0, err), s1)
                 else reset_loop fuel d s1 (0 + n0 + n1) 0 [0, 0, 0] [0]))"
| "reset_loop 0 d s n idx scrolling buf = None"
| "reset_loop (Suc fuel) d s n idx scrolling buf =
     (case Device_Read d s buf of
        ((buf', _, err), s') \<Rightarrow>
          if err = Some EOF then reset_loop fuel d s' n idx scrolling buf'
          else if err \<noteq> None then Some ((n, err), s')
          else
            (let scrolling' = scrolling[nat (idx mod 3) := buf' ! 0];
                 idx' = idx + 1
             in if scrolling' = init_array then
                  (case Device_Write fuel d s' [Command_at ''start''] of
                     None \<Rightarrow> None
                   | Some ((n2, err), s2) \<Rightarrow>
                       if err \<noteq> None then Some ((n, err), s2)
                       else Some ((n + n2, None), s2))
                else reset_loop fuel d s' n idx' scrolling' buf'))"

section \<open>Scripted transports\<close>

text \<open>
  Transports to run the driver on. A connection records the buffers it was sent and
  carries the outcomes of the reads to come: each is the data of one read and its error;
  once they are used up every read times out, which the serial port reports as \<^verbatim>\<open>io.EOF\<close>
  with no data. \<open>accept_dev\<close> takes every write whole; \<open>plan_dev\<close> takes the outcomes of
  its writes from \<open>wplan\<close>, and accepts every write once that is used up.
\<close>

record conn =
  sent :: "byte list list"
  wplan :: "error option list"
  rplan :: "(byte list \<times> error option) list"

definition plan_r :: "conn \<Rightarrow> byte list \<Rightarrow> (byte list \<times> int \<times> error option) \<times> conn" where
  "plan_r s buf =
     (case rplan s of
        [] \<Rightarrow> (([], 0, Some EOF), s)
      | (data, err) # rs \<Rightarrow>
          ((take (length buf) data, int (min (length buf) (length data)), err),
           s\<lparr>rplan := rs\<rparr>))"

definition accept_w :: "conn \<Rightarrow> byte list \<Rightarrow> (int \<times> error option) \<times> conn" where
  "accept_w s buf = ((int (length buf), None), s\<lparr>sent := sent s @ [buf]\<rparr>)"

definition plan_w :: "conn \<Rightarrow> byte list \<Rightarrow> (int \<times> error option) \<times> conn" where
  "plan_w s buf =
     (case wplan s of
        [] \<Rightarrow> accept_w s buf
      | None # es \<Rightarrow> accept_w (s\<lparr>wplan := es\<rparr>) buf
      | Some e # es \<Rightarrow> ((0, Some e), s\<lparr>wplan := es\<rparr>))"

definition accept_dev :: "conn Device" where
  "accept_dev = \<lparr>dev_r = plan_r, dev_w = accept_w, dev_c = (\<lambda>s. (None, s))\<rparr>"

definition plan_dev :: "conn Device" where
  "plan_dev = \<lparr>dev_r = plan_r, dev_w = plan_w, dev_c = (\<lambda>s. (None, s))\<rparr>"

text \<open>
  The transport of the handshake example: every write is accepted, and the reads yield
  0x01, 0x24, 0x24, 0x24, 0x02, one byte each.
\<close>

definition handshake_conn :: conn where
  "handshake_conn =
     \<lparr>sent = [], wplan = [],
      rplan = [([0x01], None), ([0x24], None), ([0x24], None), ([0x24], None), ([0x02], None)]\<rparr>"

text \<open>A transport that accepts its first write and fails the second.\<close>

definition failing_conn :: conn where
  "failing_conn = \<lparr>sent = [], wplan = [None, Some (Failure 1)], rplan = []\<rparr>"

text \<open>
  A transport whose first read delivers one init byte and whose next two reads deliver
  nothing and report no error.
\<close>

definition stale_conn :: conn where
  "stale_conn = \<lparr>sent = [], wplan = [], rplan = [([0x24], None), ([], None), ([], None)]\<rparr>"

text \<open>
  A transport whose first read delivers one init byte and whose second read fails with an
  error that is not \<^verbatim>\<open>io.EOF\<close>.
\<close>

definition broken_conn :: conn where
  "broken_conn = \<lparr>sent = [], wplan = [], rplan = [([0x24], None), ([], Some (Failure 2))]\<rparr>"

section \<open>The mock device\<close>

text \<open>
  \<^verbatim>\<open>type MockDevice struct\<close> (lines 148-153) and \<^verbatim>\<open>NewMockDevice\<close> (line 146), which sets
  \<^verbatim>\<open>on\<close> to false and leaves the three \<^verbatim>\<open>uint8\<close> counters at their zero value.
\<close>

record MockDevice =
  on :: bool
  seqcounter :: byte
  datacounter :: byte
  readstate :: byte

definition NewMockDevice :: MockDevice where
  "NewMockDevice = \<lparr>on = False, seqcounter = 0, datacounter = 0, readstate = 0\<rparr>"

text \<open>
  The body of the range loop of \<^verbatim>\<open>MockDevice.Read\<close> (lines 159-188), for one slot of \<^verbatim>\<open>p\<close>
  holding \<open>old\<close>: the byte the slot holds afterwards, and the device, the number of random
  bytes drawn and the count \<^verbatim>\<open>b\<close> afterwards. The payload byte comes from \<^verbatim>\<open>crypto/rand\<close>;
  here the source of randomness is a sequence \<open>rnd\<close>, of which the \<open>k\<close>-th draw takes
  \<open>rnd k\<close>. A \<^verbatim>\<open>readstate\<close> above 4 matches no case of the switch. The sleep of case 4 is
  left out.
\<close>

definition Read_body ::
  "(nat \<Rightarrow> byte) \<Rightarrow> byte \<Rightarrow> MockDevice \<times> nat \<times> int \<Rightarrow> byte \<times> MockDevice \<times> nat \<times> int" where
  "Read_body rnd old st =
     (case st of
        (md, k, b) \<Rightarrow>
          if readstate md = 0 then
            (Command_at ''footer'', md\<lparr>readstate := readstate md + 1\<rparr>, k, b + 1)
          else if readstate md = 1 then
            (Command_at ''header'', md\<lparr>readstate := readstate md + 1\<rparr>, k, b + 1)
          else if readstate md = 2 then
            (seqcounter md, md\<lparr>readstate := readstate md + 1\<rparr>, k, b + 1)
          else if readstate md = 3 then
            (let md' = md\<lparr>datacounter := datacounter md + 1\<rparr>
             in (rnd k,
                 if datacounter md' = 30
                 then md'\<lparr>readstate := readstate md' + 1, datacounter := 0\<rparr>
                 else md',
                 k + 1, b + 1))
          else if readstate md = 4 then
            (Command_at ''footer'',
             md\<lparr>readstate := 1, seqcounter := seqcounter md + 1\<rparr>, k, b + 1)
          else (old, md, k, b))"

text \<open>The range loop itself (line 158): one turn per slot of \<^verbatim>\<open>p\<close>, in order.\<close>

fun Read_range ::
  "(nat \<Rightarrow> byte) \<Rightarrow> byte list \<Rightarrow> MockDevice \<times> nat \<times> int \<Rightarrow>
     byte list \<times> MockDevice \<times> nat \<times> int" where
  "Read_range rnd [] st = ([], st)"
| "Read_range rnd (old # p) st =
     (case Read_body rnd old st of
        (new, st') \<Rightarrow>
          (case Read_range rnd p st' of
             (p', st'') \<Rightarrow> (new # p', st'')))"

text \<open>
  \<^verbatim>\<open>MockDevice.Read\<close> (lines 155-193): the buffer afterwards, the pair \<^verbatim>\<open>(b, nil)\<close>, the
  device and the number of random bytes drawn.
\<close>

definition MockDevice_Read ::
  "(nat \<Rightarrow> byte) \<Rightarrow> MockDevice \<times> nat \<Rightarrow> byte list \<Rightarrow>
     byte list \<times> (int \<times> error option) \<times> MockDevice \<times> nat" where
  "MockDevice_Read rnd st p =
     (case st of
        (md, k) \<Rightarrow>
          if on md then
            (case Read_range rnd p (md, k, 0) of
               (p', md', k', b) \<Rightarrow> (p', (b, None), md', k'))
          else (p, (0, None), md, k))"

text \<open>\<^verbatim>\<open>MockDevice.Write\<close> (lines 195-208) and \<^verbatim>\<open>MockDevice.Close\<close> (lines 210-212).\<close>

definition MockDevice_Write ::
  "MockDevice \<Rightarrow> byte list \<Rightarrow> (int \<times> error option) \<times> MockDevice" where
  "MockDevice_Write md p =
     (if length p = 0 then ((0, None), md)
      else
        ((int (length p), None),
         if p ! 0 = Command_at ''start'' then md\<lparr>on := True\<rparr>
         else if p ! 0 = Command_at ''stop'' then md\<lparr>on := False\<rparr>
         else md))"

definition MockDevice_Close :: "MockDevice \<Rightarrow> error option \<times> MockDevice" where
  "MockDevice_Close md = (None, md)"

text \<open>
  Successive \<^verbatim>\<open>Read\<close> calls, one per buffer of the list, each on the state the one before
  left: the bytes the calls report, in order (the first \<^verbatim>\<open>n\<close> of each buffer), and the
  state after the last.
\<close>

fun Read_calls ::
  "(nat \<Rightarrow> byte) \<Rightarrow> MockDevice \<times> nat \<Rightarrow> byte list list \<Rightarrow> byte list \<times> MockDevice \<times> nat" where
  "Read_calls rnd st [] = ([], st)"
| "Read_calls rnd st (p # ps) =
     (case MockDevice_Read rnd st p of
        (p', (n, err), st') \<Rightarrow>
          (case Read_calls rnd st' ps of
             (out, st'') \<Rightarrow> (take (nat n) p' @ out, st'')))"

subsection \<open>The stream of packets\<close>

text \<open>
  The framing to compare the mock device with. \<open>framed_byte rnd q k i\<close> is the byte at
  offset \<open>i\<close> of a run of packets of 33 bytes each, header (0xA0), sequence byte, 30 payload
  bytes, footer (0xC0), where the first packet carries the sequence byte \<open>q\<close> and the
  payload starts at the \<open>k\<close>-th random byte. \<open>mock_stream rnd\<close> is that run for \<open>q = 0\<close> and
  \<open>k = 0\<close> behind one leading footer: 0xC0, 0xA0, 0x00, 30 bytes, 0xC0, 0xA0, 0x01, ...
\<close>

definition framed_byte :: "(nat \<Rightarrow> byte) \<Rightarrow> byte \<Rightarrow> nat \<Rightarrow> nat \<Rightarrow> byte" where
  "framed_byte rnd q k i =
     (if i mod 33 = 0 then 0xa0
      else if i mod 33 = 1 then q + of_nat (i div 33)
      else if i mod 33 = 32 then 0xc0
      else rnd (k + 30 * (i div 33) + (i mod 33 - 2)))"

definition mock_stream :: "(nat \<Rightarrow> byte) \<Rightarrow> nat \<Rightarrow> byte" where
  "mock_stream rnd i = (if i = 0 then 0xc0 else framed_byte rnd 0 0 (i - 1))"

text \<open>
  The device, and the number of random bytes drawn, \<open>i\<close> bytes into such a run that began
  on the device \<open>md\<close> (at the header, with no payload byte counted) with \<open>k\<close> bytes drawn.
\<close>

definition framed_state :: "MockDevice \<Rightarrow> nat \<Rightarrow> nat \<Rightarrow> MockDevice \<times> nat" where
  "framed_state md k i =
     (md\<lparr>seqcounter := seqcounter md + of_nat (i div 33),
         datacounter := (if 2 \<le> i mod 33 \<and> i mod 33 < 32 then of_nat (i mod 33 - 2) else 0),
         readstate :=
           (if i mod 33 = 0 then 1 else if i mod 33 = 1 then 2
            else if i mod 33 < 32 then 3 else 4)\<rparr>,
      k + 30 * (i div 33) + (if i mod 33 < 2 then 0 else i mod 33 - 2))"

text \<open>
  A freshly created device after the start command, and what one \<^verbatim>\<open>Read\<close> into a buffer of
  68 bytes stores, with every random byte 0.
\<close>

definition armed_device :: MockDevice where
  "armed_device = snd (MockDevice_Write NewMockDevice [Command_at ''start''])"

definition first_68 :: "byte list" where
  "first_68 = fst (MockDevice_Read (\<lambda>k. 0) (armed_device, 0) (replicate 68 0))"

section \<open>Properties of the command table and of reset detection\<close>

lemma Command_at_simps:
  "Command_at ''stop'' = 0x73"
  "Command_at ''start'' = 0x62"
  "Command_at ''reset'' = 0x76"
  "Command_at ''footer'' = 0xc0"
  "Command_at ''header'' = 0xa0"
  "Command_at ''init'' = 0x24"
  by (simp_all add: Command_at_def Command_def Command_table_def)

text \<open>
  Claim C10. The command table maps exactly the six names stop, start, reset, footer,
  header and init, to the bytes 0x73, 0x62, 0x76, 0xC0, 0xA0 and 0x24 respectively:
  these six lookups succeed with these values, and no other name is a key.
\<close>

theorem Command_table_exact:
  "Command ''stop'' = Some 0x73 \<and>
   Command ''start'' = Some 0x62 \<and>
   Command ''reset'' = Some 0x76 \<and>
   Command ''footer'' = Some 0xc0 \<and>
   Command ''header'' = Some 0xa0 \<and>
   Command ''init'' = Some 0x24 \<and>
   dom Command = {''stop'', ''start'', ''reset'', ''footer'', ''header'', ''init''}"
  by (auto simp: Command_def Command_table_def dom_map_of_conv_image_fst)

text \<open>
  Claim C8. The reset-detection predicate is true of a buffer exactly when the byte
  0x76 occurs somewhere in it; it is false of the empty buffer.
\<close>

theorem isReset_iff_occurs:
  "isReset buf = (0x76 \<in> set buf) \<and> isReset [] = False"
  by (induction buf) (auto simp: Command_at_simps)

section \<open>The handshake\<close>

subsection \<open>Fuel\<close>

text \<open>
  A call that returns with some fuel returns the same with more: \<open>None\<close> is the only
  answer that depends on the fuel, so "returns" is "returns for some fuel" and "never
  returns" is "\<open>None\<close> for every fuel".
\<close>

lemma fuel_Suc:
  "(Device_Write k d s buf = Some r \<longrightarrow> Device_Write (Suc k) d s buf = Some r) \<and>
   (Device_reset k d s buf = Some r \<longrightarrow> Device_reset (Suc k) d s buf = Some r) \<and>
   (reset_loop k d s n idx scr b = Some r \<longrightarrow> reset_loop (Suc k) d s n idx scr b = Some r)"
proof (induction k arbitrary: s buf r n idx scr b)
  case 0
  show ?case by simp
next
  case (Suc k)
  have W: "\<And>s buf r. Device_Write k d s buf = Some r \<Longrightarrow> Device_Write (Suc k) d s buf = Some r"
    and R: "\<And>s buf r. Device_reset k d s buf = Some r \<Longrightarrow> Device_reset (Suc k) d s buf = Some r"
    and L: "\<And>s n idx scr b r. reset_loop k d s n idx scr b = Some r \<Longrightarrow>
              reset_loop (Suc k) d s n idx scr b = Some r"
    using Suc.IH by blast+
  have 1: "Device_Write (Suc k) d s buf = Some r \<Longrightarrow> Device_Write (Suc (Suc k)) d s buf = Some r"
    by (subst Device_Write.simps(2), subst (asm) Device_Write.simps(2))
       (auto simp del: Device_Write.simps Device_reset.simps reset_loop.simps simp add: R
          split: option.splits prod.splits if_splits)
  have 2: "Device_reset (Suc k) d s buf = Some r \<Longrightarrow> Device_reset (Suc (Suc k)) d s buf = Some r"
    by (subst Device_reset.simps(2), subst (asm) Device_reset.simps(2))
       (auto simp del: Device_Write.simps Device_reset.simps reset_loop.simps simp add: W L
          split: option.splits prod.splits if_splits)
  have 3: "reset_loop (Suc k) d s n idx scr b = Some r \<Longrightarrow>
           reset_loop (Suc (Suc k)) d s n idx scr b = Some r"
    by (subst reset_loop.simps(2), subst (asm) reset_loop.simps(2))
       (auto simp del: Device_Write.simps Device_reset.simps reset_loop.simps simp add: W L Let_def
          split: option.splits prod.splits if_splits)
  from 1 2 3 show ?case by blast
qed

lemma fuel_mono:
  "Device_Write k d s buf = Some r \<Longrightarrow> Device_Write (k + j) d s buf = Some r"
  by (induction j) (auto dest: fuel_Suc [THEN conjunct1, rule_format])

subsection \<open>The handshake does not complete\<close>

text \<open>
  \<^verbatim>\<open>reset\<close> sends the reset byte through \<^verbatim>\<open>d.Write\<close>, which finds the reset byte in
  that buffer and calls \<^verbatim>\<open>reset\<close> again. So a call of \<^verbatim>\<open>reset\<close> returns only with an
  error, and the loop of lines 118-135 is never entered from \<^verbatim>\<open>Write\<close>.
\<close>

lemma reset_never_succeeds:
  "(isReset buf \<longrightarrow> Device_Write fuel d s buf = Some ((n, err), s') \<longrightarrow> err \<noteq> None) \<and>
   (Device_reset fuel d s buf = Some ((n, err), s') \<longrightarrow> err \<noteq> None)"
proof (induction fuel arbitrary: s buf n err s')
  case 0
  show ?case by simp
next
  case (Suc fuel)
  have r: "isReset [Command_at ''reset'']" by simp
  have W: "\<And>m e t t'. Device_Write fuel d t [Command_at ''reset''] = Some ((m, e), t') \<Longrightarrow> e \<noteq> None"
    using Suc.IH r by blast
  show ?case
  proof (intro conjI impI)
    assume "isReset buf" and "Device_Write (Suc fuel) d s buf = Some ((n, err), s')"
    then show "err \<noteq> None"
      using Suc.IH by (auto split: option.splits prod.splits if_splits)
  next
    assume "Device_reset (Suc fuel) d s buf = Some ((n, err), s')"
    then show "err \<noteq> None"
      using W by (auto simp del: isReset.simps split: option.splits prod.splits if_splits)
  qed
qed

text \<open>On a transport that accepts every write, neither call returns at all.\<close>

lemma accepted_never_returns:
  assumes ok: "\<forall>s b. snd (fst (dev_w d s b)) = None"
  shows "(isReset buf \<longrightarrow> Device_Write fuel d s buf = None) \<and> Device_reset fuel d s buf = None"
proof (induction fuel arbitrary: s buf)
  case 0
  show ?case by simp
next
  case (Suc fuel)
  have W: "\<And>t. Device_Write fuel d t [Command_at ''reset''] = None"
    using Suc.IH by simp
  have S: "\<And>t m e t'. Device_Write fuel d t [Command_at ''stop''] = Some ((m, e), t') \<Longrightarrow> e = None"
  proof -
    fix t m e t'
    assume a: "Device_Write fuel d t [Command_at ''stop''] = Some ((m, e), t')"
    then obtain k where k: "fuel = Suc k" by (cases fuel) auto
    have "snd (fst (dev_w d t [Command_at ''stop''])) = None" using ok by blast
    with a k show "e = None"
      by (auto simp: Command_at_simps split: prod.splits if_splits)
  qed
  have 1: "isReset buf \<longrightarrow> Device_Write (Suc fuel) d s buf = None"
    using Suc.IH by simp
  have 2: "Device_reset (Suc fuel) d s buf = None"
    using W by (auto simp del: isReset.simps split: option.splits prod.splits dest!: S)
  from 1 2 show ?case by blast
qed

lemma accept_dev_ok: "\<forall>s b. snd (fst (dev_w accept_dev s b)) = None"
  by (simp add: accept_dev_def accept_w_def)

text \<open>
  The loop on its own, entered after a stop and a reset write that counted 1 each, does
  what the handshake example describes: on the reads 0x01, 0x24, 0x24, 0x24 it writes the
  start byte once and returns 3, leaving 0x02 unread.
\<close>

lemma reset_loop_handshake_stream:
  "reset_loop 5 accept_dev (handshake_conn\<lparr>sent := [[0x73], [0x76]]\<rparr>) 2 0 [0, 0, 0] [0] =
     Some ((3, None),
           \<lparr>sent = [[0x73], [0x76], [0x62]], wplan = [], rplan = [([0x02], None)]\<rparr>)"
  by code_simp

text \<open>
  Claim C1 (the code departs from it). On the transport of the handshake example, which
  accepts every write and whose reads yield 0x01, 0x24, 0x24, 0x24, 0x02, the call
  \<^verbatim>\<open>Write([0x76])\<close> does not return \<^verbatim>\<open>(3, nil)\<close>: it does not return, whatever the fuel.
\<close>

theorem Device_Write_handshake_never_returns:
  "Device_Write fuel accept_dev handshake_conn [0x76] = None"
  using accepted_never_returns [OF accept_dev_ok, of "[0x76]" fuel handshake_conn]
  by (simp add: Command_at_simps)

text \<open>
  Claim C2 (the code departs from it). On every transport whose writes all succeed, and
  whatever its reads hold, a call of \<^verbatim>\<open>Write\<close> with a buffer that contains the reset byte
  never returns.
\<close>

theorem Device_Write_reset_diverges:
  "\<forall>s b. snd (fst (dev_w d s b)) = None \<Longrightarrow> isReset buf \<Longrightarrow> Device_Write fuel d s buf = None"
  using accepted_never_returns [of d buf fuel s] by simp

theorem Device_Write_reset_diverges_witness:
  "(\<forall>s b. snd (fst (dev_w accept_dev s b)) = None) \<and> isReset [0x62, 0x76] \<and>
   Device_Write 40 accept_dev handshake_conn [0x62, 0x76] = None"
proof -
  have a: "\<forall>s b. snd (fst (dev_w accept_dev s b)) = None"
    by (simp add: accept_dev_def accept_w_def)
  have b: "isReset [0x62, 0x76]" by (simp add: Command_at_simps)
  from Device_Write_reset_diverges [OF a b] a b show ?thesis by blast
qed

subsection \<open>The count returned with an error\<close>

text \<open>
  Claim C3, as stated, fails: on a transport that accepts the first write and fails the
  second, \<^verbatim>\<open>reset\<close> returns the error with the count 1 of the stop write, and \<^verbatim>\<open>Write\<close>
  returns that error to its caller with the count 0.
\<close>

theorem Device_Write_drops_partial_count:
  "Device_reset 9 plan_dev failing_conn [0x76] =
     Some ((1, Some (Failure 1)), \<lparr>sent = [[0x73]], wplan = [], rplan = []\<rparr>) \<and>
   Device_Write 10 plan_dev failing_conn [0x76] =
     Some ((0, Some (Failure 1)), \<lparr>sent = [[0x73]], wplan = [], rplan = []\<rparr>)"
  by code_simp

lemma reset_loop_error_count:
  "reset_loop fuel d s n idx scr b = Some ((m, Some e), s') \<Longrightarrow> m = n"
proof (induction fuel arbitrary: s idx scr b)
  case 0
  then show ?case by simp
next
  case (Suc fuel)
  from Suc.prems show ?case
    by (subst (asm) reset_loop.simps(2))
       (auto simp del: Device_Write.simps reset_loop.simps simp add: Let_def
         split: option.splits prod.splits if_splits dest: Suc.IH)
qed

text \<open>
  Claim C3, amended. Whenever \<^verbatim>\<open>Write\<close> returns an error to its caller, the count that
  comes with it is 0; the count accumulated up to the failure is what the loop of \<^verbatim>\<open>reset\<close>
  returns with an error, to \<^verbatim>\<open>Write\<close>, which drops it.
\<close>

theorem Device_Write_error_count:
  "(Device_Write fuel d s buf = Some ((n, Some e), s') \<longrightarrow> n = 0) \<and>
   (reset_loop fuel' d' t m idx scr b = Some ((n', Some e'), t') \<longrightarrow> n' = m)"
proof (intro conjI impI)
  assume "Device_Write fuel d s buf = Some ((n, Some e), s')"
  then show "n = 0"
    by (cases fuel) (auto simp del: Device_reset.simps split: option.splits prod.splits if_splits)
next
  assume "reset_loop fuel' d' t m idx scr b = Some ((n', Some e'), t')"
  then show "n' = m" by (rule reset_loop_error_count)
qed

theorem Device_Write_error_count_witness:
  "Device_Write 10 plan_dev failing_conn [0x76] =
     Some ((0, Some (Failure 1)), \<lparr>sent = [[0x73]], wplan = [], rplan = []\<rparr>) \<and>
   reset_loop 5 plan_dev broken_conn 2 0 [0, 0, 0] [0] =
     Some ((2, Some (Failure 2)), \<lparr>sent = [], wplan = [], rplan = []\<rparr>)"
proof -
  have a: "Device_Write 10 plan_dev failing_conn [0x76] =
      Some ((0, Some (Failure 1)), \<lparr>sent = [[0x73]], wplan = [], rplan = []\<rparr>)"
    by code_simp
  have b: "reset_loop 5 plan_dev broken_conn 2 0 [0, 0, 0] [0] =
      Some ((2, Some (Failure 2)), \<lparr>sent = [], wplan = [], rplan = []\<rparr>)"
    by code_simp
  from Device_Write_error_count
         [of 10 plan_dev failing_conn "[0x76]" 0 "Failure 1"
             "\<lparr>sent = [[0x73]], wplan = [], rplan = []\<rparr>"
             5 plan_dev broken_conn 2 0 "[0, 0, 0]" "[0]" 2 "Failure 2"
             "\<lparr>sent = [], wplan = [], rplan = []\<rparr>"] a b
  show ?thesis by simp
qed

subsection \<open>What the loop does with each outcome of a read\<close>

text \<open>
  Claim C9. In one turn of the loop: a read that fails with \<^verbatim>\<open>io.EOF\<close> is retried, with
  the count, the index and the window as they were; a read that fails with any other error
  ends the handshake with that error; and a read that delivers no byte and reports no
  error is not retried: the byte the one-byte buffer already holds is put into the window
  at \<^verbatim>\<open>idx%3\<close> and the loop goes on from there, to the start write if the window now holds
  three init bytes.
\<close>

theorem reset_loop_read_outcomes:
  "(dev_r d s buf = ((data, k, Some EOF), s') \<longrightarrow>
      reset_loop (Suc fuel) d s n idx scr buf =
        reset_loop fuel d s' n idx scr (stored buf data)) \<and>
   (dev_r d s buf = ((data, k, Some (Failure x)), s') \<longrightarrow>
      reset_loop (Suc fuel) d s n idx scr buf = Some ((n, Some (Failure x)), s')) \<and>
   (dev_r d s buf = (([], 0, None), s') \<longrightarrow>
      reset_loop (Suc fuel) d s n idx scr buf =
        (if scr[nat (idx mod 3) := buf ! 0] = [0x24, 0x24, 0x24]
         then (case Device_Write fuel d s' [0x62] of
                 None \<Rightarrow> None
               | Some ((n2, err), s2) \<Rightarrow>
                   if err \<noteq> None then Some ((n, err), s2) else Some ((n + n2, None), s2))
         else reset_loop fuel d s' n (idx + 1) (scr[nat (idx mod 3) := buf ! 0]) buf))"
  by (simp add: Device_Read_def stored_def Let_def init_array_def Command_at_simps)

theorem reset_loop_read_outcomes_witness:
  "dev_r accept_dev \<lparr>sent = [], wplan = [], rplan = []\<rparr> [0x24] =
     (([], 0, Some EOF), \<lparr>sent = [], wplan = [], rplan = []\<rparr>) \<and>
   reset_loop 1 accept_dev \<lparr>sent = [], wplan = [], rplan = []\<rparr> 2 1 [0x24, 0, 0] [0x24] = None \<and>
   dev_r accept_dev \<lparr>sent = [], wplan = [], rplan = [([], Some (Failure 2))]\<rparr> [0x24] =
     (([], 0, Some (Failure 2)), \<lparr>sent = [], wplan = [], rplan = []\<rparr>) \<and>
   reset_loop 1 accept_dev \<lparr>sent = [], wplan = [], rplan = [([], Some (Failure 2))]\<rparr>
       2 1 [0x24, 0, 0] [0x24] =
     Some ((2, Some (Failure 2)), \<lparr>sent = [], wplan = [], rplan = []\<rparr>) \<and>
   dev_r accept_dev \<lparr>sent = [], wplan = [], rplan = [([], None)]\<rparr> [0x24] =
     (([], 0, None), \<lparr>sent = [], wplan = [], rplan = []\<rparr>) \<and>
   reset_loop 2 accept_dev \<lparr>sent = [], wplan = [], rplan = [([], None)]\<rparr>
       2 2 [0x24, 0x24, 0] [0x24] =
     Some ((3, None), \<lparr>sent = [[0x62]], wplan = [], rplan = []\<rparr>) \<and>
   reset_loop 5 accept_dev stale_conn 2 0 [0, 0, 0] [0] =
     Some ((3, None), \<lparr>sent = [[0x62]], wplan = [], rplan = []\<rparr>)"
proof -
  let ?e = "\<lparr>sent = [], wplan = [], rplan = []\<rparr>"
  let ?f = "\<lparr>sent = [], wplan = [], rplan = [([], Some (Failure 2))]\<rparr>"
  let ?z = "\<lparr>sent = [], wplan = [], rplan = [([], None)]\<rparr>"
  have a: "dev_r accept_dev ?e [0x24] = (([], 0, Some EOF), ?e)"
    by (simp add: accept_dev_def plan_r_def)
  have b: "dev_r accept_dev ?f [0x24] = (([], 0, Some (Failure 2)), ?e)"
    by (simp add: accept_dev_def plan_r_def)
  have c: "dev_r accept_dev ?z [0x24] = (([], 0, None), ?e)"
    by (simp add: accept_dev_def plan_r_def)
  have w: "Device_Write 1 accept_dev ?e [0x62] =
             Some ((1, None), \<lparr>sent = [[0x62]], wplan = [], rplan = []\<rparr>)"
    by code_simp
  have l: "reset_loop 5 accept_dev stale_conn 2 0 [0, 0, 0] [0] =
             Some ((3, None), \<lparr>sent = [[0x62]], wplan = [], rplan = []\<rparr>)"
    by code_simp
  note t = reset_loop_read_outcomes
  from t [of accept_dev ?e "[0x24]" "[]" 0 ?e 0 2 1 "[0x24, 0, 0]", THEN conjunct1] a
  have 1: "reset_loop 1 accept_dev ?e 2 1 [0x24, 0, 0] [0x24] = None"
    by simp
  from t [of accept_dev ?f "[0x24]" "[]" 0 ?e 0 2 1 "[0x24, 0, 0]" 2,
          THEN conjunct2, THEN conjunct1] b
  have 2: "reset_loop 1 accept_dev ?f 2 1 [0x24, 0, 0] [0x24] = Some ((2, Some (Failure 2)), ?e)"
    by simp
  from t [of accept_dev ?z "[0x24]" "[]" 0 ?e 1 2 2 "[0x24, 0x24, 0]",
          THEN conjunct2, THEN conjunct2] c w
  have 3: "reset_loop 2 accept_dev ?z 2 2 [0x24, 0x24, 0] [0x24] =
             Some ((3, None), \<lparr>sent = [[0x62]], wplan = [], rplan = []\<rparr>)"
    by (simp add: numeral_2_eq_2 del: reset_loop.simps Device_Write.simps Device_reset.simps)
  from a b c 1 2 3 l show ?thesis by blast
qed

section \<open>The mock device: framing\<close>

subsection \<open>One slot, one buffer, several calls\<close>

lemma byte_of_nat_eq:
  assumes "n < 256" and "m < 256"
  shows "((of_nat n :: byte) = of_nat m) = (n = m)"
proof
  assume "(of_nat n :: byte) = of_nat m"
  then have "unat (of_nat n :: byte) = unat (of_nat m :: byte)" by simp
  with assms show "n = m" by (simp add: unat_of_nat)
qed simp

lemma byte_of_nat_31: "n < 256 \<Longrightarrow> ((of_nat n :: byte) = 31) = (n = 31)"
  using byte_of_nat_eq [of n 31] by simp

text \<open>
  One turn of the range loop, \<open>i\<close> bytes into a run of packets, stores the byte the framing
  has at offset \<open>i\<close> and leaves the device \<open>i + 1\<close> bytes into the run.
\<close>

lemma Read_body_framed:
  assumes "readstate md = 1" and "datacounter md = 0"
  shows "Read_body rnd old (fst (framed_state md k i), snd (framed_state md k i), b) =
           (framed_byte rnd (seqcounter md) k i,
            fst (framed_state md k (Suc i)), snd (framed_state md k (Suc i)), b + 1)"
proof -
  have j: "i mod 33 < 33" by simp
  consider "i mod 33 = 0" | "i mod 33 = 1" | "2 \<le> i mod 33" "i mod 33 < 31"
    | "i mod 33 = 31" | "i mod 33 = 32"
    using j by linarith
  then show ?thesis
  proof cases
    case 1
    then show ?thesis
      by (simp add: Read_body_def framed_state_def framed_byte_def mod_Suc div_Suc
            Command_at_simps)
  next
    case 2
    then show ?thesis
      by (simp add: Read_body_def framed_state_def framed_byte_def mod_Suc div_Suc
            Command_at_simps)
  next
    case 3
    then show ?thesis
      by (simp add: Read_body_def framed_state_def framed_byte_def mod_Suc div_Suc
            Command_at_simps Let_def byte_of_nat_31)
  next
    case 4
    then show ?thesis
      by (simp add: Read_body_def framed_state_def framed_byte_def mod_Suc div_Suc
            Command_at_simps Let_def)
  next
    case 5
    then show ?thesis
      by (simp add: Read_body_def framed_state_def framed_byte_def mod_Suc div_Suc
            Command_at_simps Let_def)
  qed
qed

lemma Read_range_framed:
  assumes "readstate md = 1" and "datacounter md = 0"
  shows "Read_range rnd p (fst (framed_state md k i), snd (framed_state md k i), b) =
           (map (framed_byte rnd (seqcounter md) k) [i..<i + length p],
            fst (framed_state md k (i + length p)), snd (framed_state md k (i + length p)),
            b + int (length p))"
proof (induction p arbitrary: i b)
  case Nil
  show ?case by simp
next
  case (Cons x p)
  have u: "[i..<i + length (x # p)] = i # [Suc i..<Suc i + length p]"
    by (subst upt_conv_Cons) simp_all
  have "Read_range rnd (x # p) (fst (framed_state md k i), snd (framed_state md k i), b) =
          (framed_byte rnd (seqcounter md) k i #
             map (framed_byte rnd (seqcounter md) k) [Suc i..<Suc i + length p],
           fst (framed_state md k (Suc i + length p)),
           snd (framed_state md k (Suc i + length p)), b + 1 + int (length p))"
    by (simp only: Read_range.simps Read_body_framed [OF assms] Cons.IH prod.case)
  then show ?case
    by (simp only: u) simp
qed

lemma framed_state_0:
  "readstate md = 1 \<Longrightarrow> datacounter md = 0 \<Longrightarrow> framed_state md k 0 = (md, k)"
  by (cases md) (simp add: framed_state_def)

lemma on_framed_state: "on (fst (framed_state md k i)) = on md"
  by (simp add: framed_state_def)

lemma MockDevice_Read_framed:
  assumes "on md" and "readstate md = 1" and "datacounter md = 0"
  shows "MockDevice_Read rnd (framed_state md k i) p =
           (map (framed_byte rnd (seqcounter md) k) [i..<i + length p],
            (int (length p), None), framed_state md k (i + length p))"
  by (simp add: MockDevice_Read_def case_prod_beta on_framed_state assms(1)
        Read_range_framed [OF assms(2,3)])

lemma Read_calls_framed:
  assumes "on md" and "readstate md = 1" and "datacounter md = 0"
  shows "Read_calls rnd (framed_state md k i) ps =
           (map (framed_byte rnd (seqcounter md) k) [i..<i + length (concat ps)],
            framed_state md k (i + length (concat ps)))"
proof (induction ps arbitrary: i)
  case Nil
  show ?case by simp
next
  case (Cons p ps)
  have u: "[i..<i + (length p + length (concat ps))] =
             [i..<i + length p] @ [i + length p..<i + length p + length (concat ps)]"
    using upt_add_eq_append [of i "i + length p" "length (concat ps)"]
    by (simp add: add.assoc)
  show ?case
    by (simp only: Read_calls.simps MockDevice_Read_framed [OF assms] Cons.IH prod.case
          concat.simps length_append u)
       (simp add: add.assoc)
qed

text \<open>The first 33 bytes of a run are one packet.\<close>

lemma framed_packet:
  "map (framed_byte rnd q k) [0..<33] = [0xa0, q] @ map rnd [k..<k + 30] @ [0xc0]"
proof -
  have s: "[0..<33] = [0, 1] @ [2..<32] @ [32::nat]"
    by code_simp
  have m: "map (framed_byte rnd q k) [2..<32] = map rnd [k..<k + 30]"
    by (rule map_upt_eqI) (simp_all add: framed_byte_def)
  show ?thesis
    by (simp only: s map_append m) (simp add: framed_byte_def)
qed

lemma framed_state_33:
  "readstate md = 1 \<Longrightarrow> datacounter md = 0 \<Longrightarrow>
   framed_state md k 33 = (md\<lparr>seqcounter := seqcounter md + 1\<rparr>, k + 30)"
  by (cases md) (simp add: framed_state_def)

lemma Read_range_at_header:
  assumes "readstate md = 1" and "datacounter md = 0"
  shows "Read_range rnd p (md, k, b) =
           (map (framed_byte rnd (seqcounter md) k) [0..<length p],
            fst (framed_state md k (length p)), snd (framed_state md k (length p)),
            b + int (length p))"
  using Read_range_framed [OF assms, of rnd p k 0 b] by (simp add: framed_state_0 [OF assms])

lemma Read_body_at_footer:
  "readstate md = 0 \<Longrightarrow>
   Read_body rnd old (md, k, b) = (0xc0, md\<lparr>readstate := 1\<rparr>, k, b + 1)"
  by (simp add: Read_body_def Command_at_simps)

subsection \<open>The shape of a packet\<close>

text \<open>
  Claim C4, as stated, fails. A fresh device, armed, stores 68 bytes: the first 34 have the
  shape footer, header, sequence byte, 30 payload bytes, footer; the 34 after them do not,
  they begin with the header of the second packet and end with the header of the third.
\<close>

theorem first_68_not_two_packets_of_34:
  "take 34 first_68 = [0xc0, 0xa0, 0x00] @ replicate 30 0 @ [0xc0] \<and>
   take 34 (drop 34 first_68) = [0xa0, 0x01] @ replicate 30 0 @ [0xc0, 0xa0]"
  by code_simp

text \<open>
  Claim C4, amended. While the device is armed, a packet read from the header phase is
  exactly 33 bytes, header (0xA0), sequence byte, 30 payload bytes, footer (0xC0), and
  leaves the device at the header phase with the sequence counter one higher; from the
  footer phase, where a fresh device starts, one footer comes first, so that only the first
  packet spans 34 bytes, and the cycle restarts at the header, not at the footer.
\<close>

theorem MockDevice_Read_packet:
  "(on md \<and> readstate md = 1 \<and> datacounter md = 0 \<and> length p = 33 \<longrightarrow>
      MockDevice_Read rnd (md, k) p =
        ([0xa0, seqcounter md] @ map rnd [k..<k + 30] @ [0xc0],
         (33, None), md\<lparr>seqcounter := seqcounter md + 1\<rparr>, k + 30)) \<and>
   (on md \<and> readstate md = 0 \<and> datacounter md = 0 \<and> length p = 34 \<longrightarrow>
      MockDevice_Read rnd (md, k) p =
        (0xc0 # [0xa0, seqcounter md] @ map rnd [k..<k + 30] @ [0xc0],
         (34, None), md\<lparr>readstate := 1, seqcounter := seqcounter md + 1\<rparr>, k + 30))"
proof (intro conjI impI)
  assume a: "on md \<and> readstate md = 1 \<and> datacounter md = 0 \<and> length p = 33"
  then have h: "readstate md = 1" "datacounter md = 0" by simp_all
  from a show "MockDevice_Read rnd (md, k) p =
      ([0xa0, seqcounter md] @ map rnd [k..<k + 30] @ [0xc0],
       (33, None), md\<lparr>seqcounter := seqcounter md + 1\<rparr>, k + 30)"
    by (simp add: MockDevice_Read_def Read_range_at_header [OF h] framed_packet
          framed_state_33 [OF h])
next
  assume a: "on md \<and> readstate md = 0 \<and> datacounter md = 0 \<and> length p = 34"
  then obtain x p' where p: "p = x # p'" and l: "length p' = 33"
    by (cases p) auto
  let ?md = "md\<lparr>readstate := 1\<rparr>"
  have h: "readstate ?md = 1" "datacounter ?md = 0" using a by simp_all
  from a show "MockDevice_Read rnd (md, k) p =
      (0xc0 # [0xa0, seqcounter md] @ map rnd [k..<k + 30] @ [0xc0],
       (34, None), md\<lparr>readstate := 1, seqcounter := seqcounter md + 1\<rparr>, k + 30)"
    by (simp add: MockDevice_Read_def p l Read_body_at_footer Read_range_at_header [OF h]
          framed_packet framed_state_33 [OF h])
qed

theorem MockDevice_Read_packet_witness:
  "MockDevice_Read (\<lambda>k. of_nat k)
     (\<lparr>on = True, seqcounter = 255, datacounter = 0, readstate = 1\<rparr>, 7) (replicate 33 9) =
     ([0xa0, 255] @ map of_nat [7..<37] @ [0xc0], (33, None),
      \<lparr>on = True, seqcounter = 0, datacounter = 0, readstate = 1\<rparr>, 37) \<and>
   MockDevice_Read (\<lambda>k. of_nat k) (armed_device, 0) (replicate 34 9) =
     (0xc0 # [0xa0, 0] @ map of_nat [0..<30] @ [0xc0], (34, None),
      \<lparr>on = True, seqcounter = 1, datacounter = 0, readstate = 1\<rparr>, 30)"
proof -
  have a: "armed_device = \<lparr>on = True, seqcounter = 0, datacounter = 0, readstate = 0\<rparr>"
    by (simp add: armed_device_def MockDevice_Write_def NewMockDevice_def Command_at_simps)
  note t = MockDevice_Read_packet
  from t [of "\<lparr>on = True, seqcounter = 255, datacounter = 0, readstate = 1\<rparr>"
             "replicate 33 9" "\<lambda>k. of_nat k" 7, THEN conjunct1]
       t [of armed_device "replicate 34 9" "\<lambda>k. of_nat k" 0, THEN conjunct2]
  show ?thesis by (simp add: a)
qed

subsection \<open>The stream of a fresh device\<close>

lemma MockDevice_Read_at_footer:
  assumes "on md" and "readstate md = 0" and "datacounter md = 0"
  shows "MockDevice_Read rnd (md, k) (x # p) =
           (0xc0 # map (framed_byte rnd (seqcounter md) k) [0..<length p],
            (1 + int (length p), None), framed_state (md\<lparr>readstate := 1\<rparr>) k (length p))"
proof -
  let ?md = "md\<lparr>readstate := 1\<rparr>"
  have h: "readstate ?md = 1" "datacounter ?md = 0" using assms by simp_all
  show ?thesis
    using assms(1)
    by (simp add: MockDevice_Read_def Read_body_at_footer [OF assms(2)]
          Read_range_at_header [OF h])
qed

lemma Read_calls_fresh:
  assumes "on md" and "readstate md = 0" and "datacounter md = 0"
  shows "fst (Read_calls rnd (md, k) ps) =
           map (\<lambda>i. if i = 0 then 0xc0 else framed_byte rnd (seqcounter md) k (i - 1))
             [0..<length (concat ps)]"
proof (induction ps)
  case Nil
  show ?case by simp
next
  case (Cons p ps)
  show ?case
  proof (cases p)
    case Nil
    then show ?thesis
      using assms(1) Cons.IH by (simp add: MockDevice_Read_def)
  next
    case (Cons x p')
    let ?md = "md\<lparr>readstate := 1\<rparr>"
    have h: "on ?md" "readstate ?md = 1" "datacounter ?md = 0" using assms by simp_all
    have u: "[0..<length p' + length (concat ps)] =
               [0..<length p'] @ [length p'..<length p' + length (concat ps)]"
      using upt_add_eq_append [of 0 "length p'" "length (concat ps)"] by simp
    show ?thesis
      by (simp add: Cons MockDevice_Read_at_footer [OF assms] Read_calls_framed [OF h]
            map_upt_Suc u del: upt_Suc)
  qed
qed

lemma armed_device_fresh:
  "on armed_device \<and> readstate armed_device = 0 \<and> datacounter armed_device = 0 \<and>
   seqcounter armed_device = 0"
  by (simp add: armed_device_def MockDevice_Write_def NewMockDevice_def Command_at_simps)

text \<open>
  Claim C5. Successive \<^verbatim>\<open>Read\<close> calls on a freshly created device that was armed by a
  write of the start byte produce, whatever the sizes of the buffers, the stream 0xC0, then
  for packet \<open>n\<close> = 0, 1, 2, ... the bytes 0xA0, the sequence byte \<open>n\<close> modulo 256, 30 payload
  bytes (the random bytes in the order drawn) and 0xC0; the sequence byte of packet 255 is
  255 and that of packet 256 is 0.
\<close>

theorem Read_calls_stream:
  "fst (Read_calls rnd (armed_device, 0) ps) = map (mock_stream rnd) [0..<length (concat ps)] \<and>
   mock_stream rnd 0 = 0xc0 \<and>
   mock_stream rnd (33 * n + 1) = 0xa0 \<and>
   mock_stream rnd (33 * n + 2) = of_nat n \<and>
   (j < 30 \<longrightarrow> mock_stream rnd (33 * n + 3 + j) = rnd (30 * n + j)) \<and>
   mock_stream rnd (33 * n + 33) = 0xc0 \<and>
   mock_stream rnd (33 * 255 + 2) = 255 \<and>
   mock_stream rnd (33 * 256 + 2) = 0"
proof -
  note f = armed_device_fresh
  have 1: "fst (Read_calls rnd (armed_device, 0) ps) =
             map (mock_stream rnd) [0..<length (concat ps)]"
    using Read_calls_fresh [of armed_device rnd 0 ps] f
    by (simp add: mock_stream_def [abs_def])
  have 2: "mock_stream rnd (33 * n + 1) = 0xa0"
    by (simp add: mock_stream_def framed_byte_def)
  have 3: "mock_stream rnd (33 * m + 2) = of_nat m" for m
  proof -
    have e: "33 * m + 2 - 1 = m * 33 + 1" by simp
    have r: "(m * 33 + 1) mod 33 = 1" using mod_mult_self3 [of m 33 1] by simp
    have d: "(m * 33 + 1) div 33 = m" using div_mult_self3 [of 33 m 1] by simp
    show ?thesis
      unfolding mock_stream_def framed_byte_def e r d by simp
  qed
  have 4: "j < 30 \<longrightarrow> mock_stream rnd (33 * n + 3 + j) = rnd (30 * n + j)"
  proof
    assume j: "j < 30"
    have e: "33 * n + 3 + j - 1 = n * 33 + (j + 2)" by simp
    have m: "(n * 33 + (j + 2)) mod 33 = j + 2"
      using j mod_mult_self3 [of n 33 "j + 2"] by simp
    have d: "(n * 33 + (j + 2)) div 33 = n"
      using j div_mult_self3 [of 33 n "j + 2"] by simp
    show "mock_stream rnd (33 * n + 3 + j) = rnd (30 * n + j)"
      unfolding mock_stream_def framed_byte_def e m d using j by simp
  qed
  have 5: "mock_stream rnd (33 * n + 33) = 0xc0"
  proof -
    have e: "33 * n + 33 - 1 = n * 33 + 32" by simp
    have r: "(n * 33 + 32) mod 33 = 32" using mod_mult_self3 [of n 33 32] by simp
    show ?thesis
      unfolding mock_stream_def framed_byte_def e r by simp
  qed
  have 6: "mock_stream rnd (33 * 255 + 2) = 255" using 3 [of 255] by simp
  have 7: "mock_stream rnd (33 * 256 + 2) = 0" using 3 [of 256] by simp
  from 1 2 3 [of n] 4 5 6 7 show ?thesis
    by (simp add: mock_stream_def)
qed

theorem Read_calls_stream_witness:
  "fst (Read_calls (\<lambda>k. of_nat k + 100) (armed_device, 0) [[9, 9], [], [9, 9, 9, 9]]) =
     [0xc0, 0xa0, 0, 100, 101, 102] \<and>
   (4::nat) < 30 \<and> mock_stream (\<lambda>k. of_nat k + 100) (33 * 2 + 3 + 4) = 164"
proof -
  have l: "length (concat [[9, 9], [], [9, 9, 9, 9 :: byte]]) = 6" by simp
  have u: "[0..<6] = [0, 1, 2, 3, 4, 5 :: nat]" by code_simp
  have m: "map (mock_stream (\<lambda>k. of_nat k + 100)) [0, 1, 2, 3, 4, 5] =
             [0xc0, 0xa0, 0, 100, 101, 102]"
    by (simp add: mock_stream_def framed_byte_def)
  from Read_calls_stream [of "\<lambda>k. of_nat k + 100" "[[9, 9], [], [9, 9, 9, 9]]" 2 4]
  show ?thesis
    by (simp only: l u m) simp
qed

subsection \<open>Commands and the disarmed device\<close>

text \<open>
  Claim C6. \<^verbatim>\<open>Write\<close> on an empty buffer returns \<^verbatim>\<open>(0, nil)\<close> and leaves the device as it
  was. On a buffer with first byte \<open>x\<close> it returns the length of the buffer and no error,
  whatever the other bytes are, and the device afterwards depends on \<open>x\<close> alone: armed for
  0x62, disarmed for 0x73, unchanged for any other byte.
\<close>

theorem MockDevice_Write_commands:
  "MockDevice_Write md [] = ((0, None), md) \<and>
   MockDevice_Write md (x # xs) =
     ((int (length (x # xs)), None),
      if x = 0x62 then md\<lparr>on := True\<rparr>
      else if x = 0x73 then md\<lparr>on := False\<rparr>
      else md)"
  by (simp add: MockDevice_Write_def Command_at_simps)

text \<open>
  Claim C7. On a disarmed device \<^verbatim>\<open>Read\<close> returns \<^verbatim>\<open>(0, nil)\<close>, leaves the buffer as it
  was and the phase, the counters and the random source as they were. So after a stop
  command, any \<^verbatim>\<open>Read\<close>, and a start command, an armed device is in the state it had before
  the stop command: emission resumes where it stopped.
\<close>

theorem MockDevice_Read_disarmed:
  "(\<not> on md \<longrightarrow> MockDevice_Read rnd (md, k) p = (p, (0, None), md, k)) \<and>
   (on md \<longrightarrow>
      MockDevice_Read rnd (snd (MockDevice_Write md [0x73]), k) p =
        (p, (0, None), snd (MockDevice_Write md [0x73]), k) \<and>
      readstate (snd (MockDevice_Write md [0x73])) = readstate md \<and>
      seqcounter (snd (MockDevice_Write md [0x73])) = seqcounter md \<and>
      datacounter (snd (MockDevice_Write md [0x73])) = datacounter md \<and>
      snd (MockDevice_Write (snd (MockDevice_Write md [0x73])) [0x62]) = md)"
  by (cases md) (simp add: MockDevice_Read_def MockDevice_Write_def Command_at_simps)

theorem MockDevice_Read_disarmed_witness:
  "\<not> on NewMockDevice \<and>
   MockDevice_Read (\<lambda>k. 5) (NewMockDevice, 0) [1, 2, 3] = ([1, 2, 3], (0, None), NewMockDevice, 0) \<and>
   on \<lparr>on = True, seqcounter = 7, datacounter = 12, readstate = 3\<rparr> \<and>
   MockDevice_Read (\<lambda>k. 5)
     (\<lparr>on = False, seqcounter = 7, datacounter = 12, readstate = 3\<rparr>, 4) [1, 2, 3] =
     ([1, 2, 3], (0, None), \<lparr>on = False, seqcounter = 7, datacounter = 12, readstate = 3\<rparr>, 4) \<and>
   snd (MockDevice_Write \<lparr>on = False, seqcounter = 7, datacounter = 12, readstate = 3\<rparr> [0x62]) =
     \<lparr>on = True, seqcounter = 7, datacounter = 12, readstate = 3\<rparr>"
proof -
  have w: "snd (MockDevice_Write \<lparr>on = True, seqcounter = 7, datacounter = 12, readstate = 3\<rparr>
             [0x73]) = \<lparr>on = False, seqcounter = 7, datacounter = 12, readstate = 3\<rparr>"
    by (simp add: MockDevice_Write_def Command_at_simps)
  have n: "\<not> on NewMockDevice" by (simp add: NewMockDevice_def)
  note t = MockDevice_Read_disarmed
  from t [of NewMockDevice "\<lambda>k. 5" 0 "[1, 2, 3]", THEN conjunct1]
       t [of "\<lparr>on = True, seqcounter = 7, datacounter = 12, readstate = 3\<rparr>" "\<lambda>k. 5" 4
             "[1, 2, 3]", THEN conjunct2]
       n
  show ?thesis by (simp add: w)
qed

end
